theory Spec2Isabelle
  imports Main "HOL-Library.Word" "HOL-Library.Sublist"
begin

section \<open>JavaScript values and strings\<close>

text \<open>
  A shallow embedding of \<^verbatim>\<open>src/index.ts\<close>, the Worker that serves JSON documents out
  of a key-value namespace. JavaScript strings are modelled as \<open>string\<close>; the string
  operations the program uses (\<^verbatim>\<open>endsWith\<close>, the three \<^verbatim>\<open>replace\<close> calls, template
  literals) only look at the ASCII characters slash, double quote, \<^verbatim>\<open>W\<close> and
  \<^verbatim>\<open>.json\<close>, on which bytes and UTF-16 code units agree.
\<close>

type_synonym byte = "8 word"

text \<open>
  What \<^verbatim>\<open>JSON.stringify\<close> makes of a value that stands as a property of an object: its
  JSON text, nothing (the property is left out), or an exception.
\<close>

datatype 'e json_outcome = Rendered string | Omitted | Throws 'e

text \<open>
  What an object does for one property name that \<^verbatim>\<open>in\<close> does not find absent: \<^verbatim>\<open>in\<close>
  finds it and reading it gives a value, \<^verbatim>\<open>in\<close> finds it and reading it throws (a
  getter), or \<^verbatim>\<open>in\<close> itself throws (a proxy).
\<close>

datatype 'v access = Holds 'v | GetThrows 'v | InThrows 'v

text \<open>
  What a \<^verbatim>\<open>catch (err)\<close> can receive: any value. The cast
  \<^verbatim>\<open>(err as { message: string })\<close> of the source is erased at run time, so the
  properties of an object hold any value again.
  \<^item> \<open>JNumber t s\<close> is a number, given by what can be seen of it here: \<open>t\<close> says
    whether it is truthy (it is not \<^verbatim>\<open>0\<close>, \<^verbatim>\<open>-0\<close> or \<^verbatim>\<open>NaN\<close>), and \<open>s\<close> is the text
    \<^verbatim>\<open>JSON.stringify\<close> writes for it (its digits, or \<^verbatim>\<open>null\<close> for \<^verbatim>\<open>NaN\<close> and the
    infinities). Any \<open>t\<close> is allowed beside any \<open>s\<close>, so every number is covered.
  \<^item> \<open>JObject ps out\<close> is an object of any kind (an \<^verbatim>\<open>Error\<close>, an array, a plain
    object, a proxy): \<open>ps\<close> says for every property name, own or inherited, that
    \<^verbatim>\<open>in\<close> does not find absent, what the object does for it, and \<open>out\<close> is what
    \<^verbatim>\<open>JSON.stringify\<close> makes of the object, which depends on more than \<open>ps\<close>
    (enumerability, a \<^verbatim>\<open>toJSON\<close> method, a cycle). Any \<open>out\<close> is allowed beside any
    \<open>ps\<close>, so a statement about every \<open>js_value\<close> covers every object.
\<close>

datatype js_value =
    JUndefined
  | JNull
  | JBoolean bool
  | JNumber bool string
  | JBigInt int
  | JString string
  | JSymbol
  | JFunction
  | JObject "(string \<times> js_value access) list" "js_value json_outcome"

fun truthy :: "js_value \<Rightarrow> bool" where
  "truthy JUndefined = False"
| "truthy JNull = False"
| "truthy (JBoolean b) = b"
| "truthy (JNumber t s) = t"
| "truthy (JBigInt n) = (n \<noteq> 0)"
| "truthy (JString s) = (s \<noteq> [])"
| "truthy JSymbol = True"
| "truthy JFunction = True"
| "truthy (JObject ps out) = True"

fun typeof :: "js_value \<Rightarrow> string" where
  "typeof JUndefined = ''undefined''"
| "typeof JNull = ''object''"
| "typeof (JBoolean b) = ''boolean''"
| "typeof (JNumber t s) = ''number''"
| "typeof (JBigInt n) = ''bigint''"
| "typeof (JString s) = ''string''"
| "typeof JSymbol = ''symbol''"
| "typeof JFunction = ''function''"
| "typeof (JObject ps out) = ''object''"

text \<open>
  \<^verbatim>\<open>name in v\<close> and \<^verbatim>\<open>v.name\<close>: the outcome (\<open>Inr\<close>), or the exception thrown
  (\<open>Inl\<close>). The handler evaluates them on objects only (the \<^verbatim>\<open>&&\<close> before them cuts
  every other value off), and \<^verbatim>\<open>v.name\<close> only for a name that \<^verbatim>\<open>in\<close> has found.
\<close>

fun has_property :: "string \<Rightarrow> js_value \<Rightarrow> js_value + bool" where
  "has_property name (JObject ps out) =
     (case map_of ps name of
        None \<Rightarrow> Inr False
      | Some (InThrows e) \<Rightarrow> Inl e
      | Some a \<Rightarrow> Inr True)"
| "has_property name v = Inr False"

fun get_property :: "js_value \<Rightarrow> string \<Rightarrow> js_value + js_value" where
  "get_property (JObject ps out) name =
     (case map_of ps name of
        None \<Rightarrow> Inr JUndefined
      | Some (Holds v) \<Rightarrow> Inr v
      | Some (GetThrows e) \<Rightarrow> Inl e
      | Some (InThrows e) \<Rightarrow> Inl e)"
| "get_property v name = Inr JUndefined"

text \<open>\<^verbatim>\<open>s.endsWith(t)\<close>: the last \<open>length t\<close> characters of \<open>s\<close> are \<open>t\<close>.\<close>

definition endsWith :: "string \<Rightarrow> string \<Rightarrow> bool" where
  "endsWith s t = (length t \<le> length s \<and> drop (length s - length t) s = t)"

text \<open>
  \<^verbatim>\<open>s.replace(/^\/+/, '')\<close>: the greedy run of slashes at the start of the string is
  removed (nothing is removed when the string does not start with a slash).
\<close>

fun replace_leading_slashes :: "string \<Rightarrow> string" where
  "replace_leading_slashes [] = []"
| "replace_leading_slashes (c # cs) =
     (if c = CHR ''/'' then replace_leading_slashes cs else c # cs)"

text \<open>\<^verbatim>\<open>s.replace(/^W\//, '')\<close>: one leading \<^verbatim>\<open>W/\<close> is removed.\<close>

fun replace_weak_prefix :: "string \<Rightarrow> string" where
  "replace_weak_prefix (c # d # cs) =
     (if c = CHR ''W'' \<and> d = CHR ''/'' then cs else c # d # cs)"
| "replace_weak_prefix cs = cs"

text \<open>
  \<^verbatim>\<open>s.replace(/^"+|"+$/g, '')\<close>: the global replace first removes the greedy run of
  double quotes at the start, then goes on in what is left, where only the second
  alternative can match: at the first position from which nothing but double quotes
  follows up to the end.
\<close>

definition dquote :: char where
  "dquote = CHR 0x22"

fun replace_leading_quotes :: "string \<Rightarrow> string" where
  "replace_leading_quotes [] = []"
| "replace_leading_quotes (c # cs) =
     (if c = dquote then replace_leading_quotes cs else c # cs)"

fun replace_trailing_quotes :: "string \<Rightarrow> string" where
  "replace_trailing_quotes [] = []"
| "replace_trailing_quotes (c # cs) =
     (if list_all (\<lambda>x. x = dquote) (c # cs) then [] else c # replace_trailing_quotes cs)"

definition replace_surrounding_quotes :: "string \<Rightarrow> string" where
  "replace_surrounding_quotes s = replace_trailing_quotes (replace_leading_quotes s)"

section \<open>Hexadecimal digits and JSON text\<close>

definition hex_digit :: "nat \<Rightarrow> char" where
  "hex_digit d = ''0123456789abcdef'' ! (d mod 16)"

text \<open>\<^verbatim>\<open>n.toString(16)\<close> for a non-negative integer: no leading zeros, lower case.\<close>

fun toString16 :: "nat \<Rightarrow> string" where
  "toString16 n =
     (if n < 16 then [hex_digit n] else toString16 (n div 16) @ [hex_digit (n mod 16)])"

declare toString16.simps [simp del]

text \<open>\<^verbatim>\<open>s.padStart(n, c)\<close> with a one-character filler.\<close>

definition padStart :: "nat \<Rightarrow> char \<Rightarrow> string \<Rightarrow> string" where
  "padStart n c s = replicate (n - length s) c @ s"

text \<open>
  \<^verbatim>\<open>JSON.stringify\<close> on a string: the text in double quotes, with the double quote, the
  backslash and the control characters below U+0020 escaped (the short escapes for
  backspace, tab, line feed, form feed and carriage return, \<^verbatim>\<open>\u00xx\<close> for the others).
\<close>

definition json_escape_char :: "char \<Rightarrow> string" where
  "json_escape_char c =
     (if c = dquote then [CHR 0x5C, dquote]
      else if c = CHR 0x5C then [CHR 0x5C, CHR 0x5C]
      else if c = CHR 0x08 then [CHR 0x5C, CHR ''b'']
      else if c = CHR 0x09 then [CHR 0x5C, CHR ''t'']
      else if c = CHR 0x0A then [CHR 0x5C, CHR ''n'']
      else if c = CHR 0x0C then [CHR 0x5C, CHR ''f'']
      else if c = CHR 0x0D then [CHR 0x5C, CHR ''r'']
      else if (of_char c :: nat) < 32
        then [CHR 0x5C, CHR ''u'', CHR ''0'', CHR ''0''] @ padStart 2 (CHR ''0'') (toString16 (of_char c))
      else [c])"

definition json_string :: "string \<Rightarrow> string" where
  "json_string s = [dquote] @ concat (map json_escape_char s) @ [dquote]"

fun join :: "string \<Rightarrow> string list \<Rightarrow> string" where
  "join sep [] = []"
| "join sep [x] = x"
| "join sep (x # y # ys) = x @ sep @ join sep (y # ys)"

text \<open>\<^verbatim>\<open>JSON.stringify\<close> on an array of strings.\<close>

definition json_string_array :: "string list \<Rightarrow> string" where
  "json_string_array xs = ''['' @ join '','' (map json_string xs) @ '']''"

text \<open>\<^verbatim>\<open>JSON.stringify\<close> on an object literal whose properties are strings, in order.\<close>

definition json_object :: "(string \<times> string) list \<Rightarrow> string" where
  "json_object ps =
     ''{'' @ join '','' (map (\<lambda>(k, v). json_string k @ '':'' @ json_string v) ps) @ ''}''"

text \<open>
  The exception of \<^verbatim>\<open>JSON.stringify\<close> on a BigInt: a \<^verbatim>\<open>TypeError\<close>, whose own
  properties are not enumerable.
\<close>

definition bigint_type_error :: js_value where
  "bigint_type_error =
     JObject [(''name'', Holds (JString ''TypeError'')),
              (''message'', Holds (JString ''Do not know how to serialize a BigInt''))]
       (Rendered ''{}'')"

text \<open>
  \<^verbatim>\<open>JSON.stringify\<close> on a value that stands as a property: \<^verbatim>\<open>undefined\<close>, a function
  and a symbol are left out, a BigInt throws, a number and an object give what they
  carry.
\<close>

fun json_property :: "js_value \<Rightarrow> js_value json_outcome" where
  "json_property JUndefined = Omitted"
| "json_property JNull = Rendered ''null''"
| "json_property (JBoolean b) = Rendered (if b then ''true'' else ''false'')"
| "json_property (JNumber t s) = Rendered s"
| "json_property (JBigInt n) = Throws bigint_type_error"
| "json_property (JString s) = Rendered (json_string s)"
| "json_property JSymbol = Omitted"
| "json_property JFunction = Omitted"
| "json_property (JObject ps out) = out"

text \<open>
  \<^verbatim>\<open>JSON.stringify\<close> on an object literal with the given properties, in order: the
  members that have a text, or the exception of the first property that throws.
\<close>

fun json_members :: "(string \<times> js_value) list \<Rightarrow> js_value + string list" where
  "json_members [] = Inr []"
| "json_members ((k, v) # ps) =
     (case json_property v of
        Throws e \<Rightarrow> Inl e
      | Omitted \<Rightarrow> json_members ps
      | Rendered t \<Rightarrow>
          (case json_members ps of
             Inl e \<Rightarrow> Inl e
           | Inr ms \<Rightarrow> Inr ((json_string k @ '':'' @ t) # ms)))"

definition json_stringify_object :: "(string \<times> js_value) list \<Rightarrow> js_value + string" where
  "json_stringify_object ps =
     (case json_members ps of
        Inl e \<Rightarrow> Inl e
      | Inr ms \<Rightarrow> Inr (''{'' @ join '','' ms @ ''}''))"

section \<open>Requests, responses and the key-value namespace\<close>

text \<open>
  Of a request the handler reads \<^verbatim>\<open>new URL(request.url).pathname\<close> and
  \<^verbatim>\<open>request.headers.get(name)\<close>, which is \<open>None\<close> for a header the request does not
  carry.
\<close>

record request =
  pathname :: string
  headers_get :: "string \<Rightarrow> string option"

text \<open>A response: its status, its body (\<open>None\<close> for \<^verbatim>\<open>null\<close>) and its headers as written.\<close>

record response =
  status :: nat
  body :: "string option"
  headers :: "(string \<times> string) list"

text \<open>
  The namespace binding. \<^verbatim>\<open>getWithMetadata(key, { type: 'text' })\<close> resolves to an
  object with a \<^verbatim>\<open>value\<close> that is a string or \<^verbatim>\<open>null\<close> (the metadata is not read), and
  \<^verbatim>\<open>list({ cursor, limit })\<close> to a page of keys with an optional cursor. Either call
  can reject instead, with any value (\<open>Inl\<close>).
\<close>

record kv_object =
  kv_value :: "string option"

record kv_key =
  key_name :: string

record list_options =
  opt_cursor :: "string option"
  opt_limit :: nat

record list_response =
  lr_keys :: "kv_key list"
  lr_cursor :: "string option"

record kv_namespace =
  getWithMetadata :: "string \<Rightarrow> js_value + kv_object option"
  kv_list :: "list_options \<Rightarrow> js_value + list_response"

record env =
  APP_JSON :: kv_namespace

section \<open>The helpers: sha1 and listAllKeys\<close>

text \<open>
  \<^verbatim>\<open>TextEncoder.encode\<close> on a string already held as its UTF-8 bytes, and \<^verbatim>\<open>sha1\<close>.
  The platform's \<^verbatim>\<open>crypto.subtle.digest('SHA-1', _)\<close> is the parameter \<open>digest\<close>.
\<close>

definition encode :: "string \<Rightarrow> byte list" where
  "encode s = map of_char s"

definition sha1 :: "(byte list \<Rightarrow> byte list) \<Rightarrow> string \<Rightarrow> string" where
  "sha1 digest data =
     (let dataBuffer = encode data;
          hashArray = digest dataBuffer
      in concat (map (\<lambda>b. padStart 2 (CHR ''0'') (toString16 (unat b))) hashArray))"

text \<open>The loop test \<^verbatim>\<open>while (cursor)\<close>: a string that is defined and not empty.\<close>

fun cursor_truthy :: "string option \<Rightarrow> bool" where
  "cursor_truthy None = False"
| "cursor_truthy (Some c) = (c \<noteq> [])"

text \<open>
  The \<^verbatim>\<open>do ... while\<close> loop of \<^verbatim>\<open>listAllKeys\<close>, from the state \<open>keys\<close>, \<open>cursor\<close>. The
  loop has no bound of its own, so it is a partial function: \<open>None\<close> is the loop that
  never ends. \<open>calls\<close> records the options of every \<^verbatim>\<open>kv.list\<close> call made so far, in
  order; the result carries that record beside the outcome, which is the rejection
  (\<open>Inl\<close>) of the first call that rejects, or the keys.
\<close>

partial_function (option) listAllKeys_loop ::
  "kv_namespace \<Rightarrow> string list \<Rightarrow> string option \<Rightarrow> list_options list
     \<Rightarrow> ((js_value + string list) \<times> list_options list) option" where
  "listAllKeys_loop kv keys cursor calls =
     (let options = \<lparr>opt_cursor = cursor, opt_limit = 1000\<rparr>;
          calls' = calls @ [options]
      in case kv_list kv options of
           Inl err \<Rightarrow> Some (Inl err, calls')
         | Inr listResponse \<Rightarrow>
             (let keys' = keys @ map key_name (lr_keys listResponse);
                  cursor' = lr_cursor listResponse
              in if cursor_truthy cursor' then listAllKeys_loop kv keys' cursor' calls'
                 else Some (Inr keys', calls')))"

definition listAllKeys ::
  "kv_namespace \<Rightarrow> ((js_value + string list) \<times> list_options list) option" where
  "listAllKeys kv = listAllKeys_loop kv [] None []"

section \<open>The fetch handler\<close>

text \<open>Lines 34 and 35: the key of a path.\<close>

definition storage_key :: "string \<Rightarrow> string" where
  "storage_key p =
     (let key = replace_leading_slashes p
      in if \<not> endsWith key ''.json'' then key @ ''.json'' else key)"

text \<open>
  Lines 22 to 25: the message reported for a caught value (\<open>Inr\<close>). It is the string
  \<^verbatim>\<open>Unknown error\<close>, or whatever value the \<^verbatim>\<open>message\<close> property holds. \<open>Inl\<close> is the
  exception of \<^verbatim>\<open>in\<close> or of the read, which nothing catches.
\<close>

definition error_message :: "js_value \<Rightarrow> js_value + js_value" where
  "error_message err =
     (if truthy err \<and> typeof err = ''object'' then
        (case has_property ''message'' err of
           Inl thrown \<Rightarrow> Inl thrown
         | Inr found \<Rightarrow>
             if found then get_property err ''message'' else Inr (JString ''Unknown error''))
      else Inr (JString ''Unknown error''))"

text \<open>Lines 49 to 52: the optional chain on the header, \<open>None\<close> for \<^verbatim>\<open>undefined\<close>.\<close>

definition normalize_if_none_match :: "string option \<Rightarrow> string option" where
  "normalize_if_none_match h =
     (case h of
        None \<Rightarrow> None
      | Some v \<Rightarrow> Some (replace_surrounding_quotes (replace_weak_prefix v)))"

text \<open>
  Line 39: the test \<^verbatim>\<open>!object || !object.value\<close>. \<open>None\<close> when it holds (no object, a
  \<^verbatim>\<open>null\<close> value or the empty string), and the text of line 46 otherwise.
\<close>

definition stored_text :: "kv_object option \<Rightarrow> string option" where
  "stored_text object =
     (case object of
        None \<Rightarrow> None
      | Some ob \<Rightarrow>
          (case kv_value ob of
             None \<Rightarrow> None
           | Some v \<Rightarrow> if v = [] then None else Some v))"

text \<open>
  The handler. The result is \<open>None\<close> when the handler never returns, \<open>Some (Inl err)\<close>
  when its promise rejects with \<open>err\<close> (a rejected \<^verbatim>\<open>getWithMetadata\<close> is not caught,
  and neither is an exception thrown inside the \<^verbatim>\<open>catch\<close> block), and
  \<open>Some (Inr r)\<close> when it resolves to the response \<open>r\<close>.
\<close>

definition fetch ::
  "(byte list \<Rightarrow> byte list) \<Rightarrow> request \<Rightarrow> env \<Rightarrow> (js_value + response) option" where
  \<open>fetch digest request env =
     (if pathname request = ''/list-keys'' then
        (case listAllKeys (APP_JSON env) of
           None \<Rightarrow> None
         | Some (Inr allKeys, calls) \<Rightarrow>
             Some (Inr \<lparr>status = 200, body = Some (json_string_array allKeys),
               headers = [(''Content-Type'', ''application/json''),
                          (''Access-Control-Allow-Origin'', ''*'')]\<rparr>)
         | Some (Inl err, calls) \<Rightarrow>
             (case error_message err of
                Inl thrown \<Rightarrow> Some (Inl thrown)
              | Inr errorMessage \<Rightarrow>
                  (case json_stringify_object [(''error'', JString ''Failed to list keys''),
                                               (''details'', errorMessage)] of
                     Inl thrown \<Rightarrow> Some (Inl thrown)
                   | Inr bodyText \<Rightarrow>
                       Some (Inr \<lparr>status = 500, body = Some bodyText,
                         headers = [(''Content-Type'', ''application/json'')]\<rparr>))))
      else
        (let key = storage_key (pathname request)
         in case getWithMetadata (APP_JSON env) key of
              Inl err \<Rightarrow> Some (Inl err)
            | Inr object \<Rightarrow>
                (case stored_text object of
                   None \<Rightarrow>
                     Some (Inr \<lparr>status = 404,
                       body = Some (json_object [(''error'', ''JSON not found for key: '' @ key)]),
                       headers = [(''Content-Type'', ''application/json'')]\<rparr>)
                 | Some jsonString \<Rightarrow>
                     (let etag = [dquote] @ sha1 digest jsonString @ [dquote];
                          ifNoneMatch =
                            normalize_if_none_match (headers_get request ''If-None-Match'');
                          normalizedEtag = replace_surrounding_quotes etag
                      in if ifNoneMatch = Some normalizedEtag then
                           Some (Inr \<lparr>status = 304, body = None,
                             headers = [(''ETag'', etag),
                                        (''Access-Control-Allow-Origin'', ''*''),
                                        (''Access-Control-Expose-Headers'', ''ETag'')]\<rparr>)
                         else
                           Some (Inr \<lparr>status = 200, body = Some jsonString,
                             headers = [(''Content-Type'', ''application/json''),
                                        (''Access-Control-Allow-Origin'', ''*''),
                                        (''Cache-Control'', ''public, max-age=300''),
                                        (''ETag'', etag)]\<rparr>)))))\<close>

section \<open>Vocabulary of the specification\<close>

text \<open>
  The characters \<^verbatim>\<open>JSON.stringify\<close> writes as they are. Every character of the
  \<^verbatim>\<open>pathname\<close> of a parsed http(s) URL is one of them: the URL parser percent-encodes
  the double quote and the control characters, and reads a backslash as a slash.
\<close>

definition json_plain :: "char \<Rightarrow> bool" where
  "json_plain c = (c \<noteq> dquote \<and> c \<noteq> CHR 0x5C \<and> 32 \<le> (of_char c :: nat))"

text \<open>The value of a response header, by its name as the handler wrote it.\<close>

definition response_header :: "response \<Rightarrow> string \<Rightarrow> string option" where
  "response_header r name = map_of (headers r) name"

text \<open>The options of a listing call: the given cursor, and a limit of 1000.\<close>

definition list_call :: "string option \<Rightarrow> list_options" where
  "list_call cursor = \<lparr>opt_cursor = cursor, opt_limit = 1000\<rparr>"

definition page_names :: "list_response \<Rightarrow> string list" where
  "page_names p = map key_name (lr_keys p)"

text \<open>
  \<open>page_chain kv cursor pages\<close>: the pages are what the store answers to the listing
  calls that start at \<open>cursor\<close> and pass on each answer's cursor; every page but the
  last carries a cursor that is a non-empty string, and the last carries none or the
  empty string.
\<close>

fun page_chain :: "kv_namespace \<Rightarrow> string option \<Rightarrow> list_response list \<Rightarrow> bool" where
  "page_chain kv cursor [] = False"
| "page_chain kv cursor [p] =
     (kv_list kv (list_call cursor) = Inr p \<and> (lr_cursor p = None \<or> lr_cursor p = Some []))"
| "page_chain kv cursor (p # q # ps) =
     (kv_list kv (list_call cursor) = Inr p \<and> lr_cursor p \<noteq> None \<and> lr_cursor p \<noteq> Some []
      \<and> page_chain kv (lr_cursor p) (q # ps))"


text \<open>
  The options of the listing call number \<open>n\<close> (from 0) of an enumeration, \<open>None\<close> when
  the enumeration is over before it: an earlier call rejected, or answered without a
  cursor to go on with.
\<close>

fun nth_call :: "kv_namespace \<Rightarrow> nat \<Rightarrow> list_options option" where
  "nth_call kv 0 = Some (list_call None)"
| "nth_call kv (Suc n) =
     (case nth_call kv n of
        None \<Rightarrow> None
      | Some options \<Rightarrow>
          (case kv_list kv options of
             Inl err \<Rightarrow> None
           | Inr r \<Rightarrow>
               if cursor_truthy (lr_cursor r) then Some (list_call (lr_cursor r)) else None))"

section \<open>Stores to run the handler on\<close>

text \<open>
  A store that holds the keys \<open>ks\<close> in this order and pages them by the limit it is
  asked for. Its cursor is the offset of the next page, written as that many
  characters; the last page has no cursor.
\<close>

definition cursor_offset :: "string option \<Rightarrow> nat" where
  "cursor_offset c = (case c of None \<Rightarrow> 0 | Some s \<Rightarrow> length s)"

definition paged_store :: "string list \<Rightarrow> kv_namespace" where
  "paged_store ks =
     \<lparr>getWithMetadata = (\<lambda>key. Inr (Some \<lparr>kv_value = None\<rparr>)),
      kv_list = (\<lambda>options.
        let offset = cursor_offset (opt_cursor options);
            next = offset + opt_limit options
        in Inr \<lparr>lr_keys = map (\<lambda>k. \<lparr>key_name = k\<rparr>) (take (opt_limit options) (drop offset ks)),
                lr_cursor = if next < length ks then Some (replicate next (CHR ''c'')) else None\<rparr>)\<rparr>"

definition example_keys :: "string list" where
  "example_keys = map (\<lambda>n. ''key-'' @ toString16 n @ ''.json'') [0..<2500]"

text \<open>A store with two documents (one of them empty) and three keys on two pages.\<close>

definition example_store :: kv_namespace where
  \<open>example_store =
     \<lparr>getWithMetadata = (\<lambda>key.
        if key = ''docs/a.json'' then Inr (Some \<lparr>kv_value = Some ''{"a":1}''\<rparr>)
        else if key = ''empty.json'' then Inr (Some \<lparr>kv_value = Some []\<rparr>)
        else Inr (Some \<lparr>kv_value = None\<rparr>)),
      kv_list = (\<lambda>options.
        case opt_cursor options of
          None \<Rightarrow>
            Inr \<lparr>lr_keys = [\<lparr>key_name = ''docs/a.json''\<rparr>, \<lparr>key_name = ''empty.json''\<rparr>],
                 lr_cursor = Some ''page2''\<rparr>
        | Some c \<Rightarrow> Inr \<lparr>lr_keys = [\<lparr>key_name = ''z.json''\<rparr>], lr_cursor = None\<rparr>)\<rparr>\<close>

text \<open>
  A store whose second listing call rejects with the given value, and the \<^verbatim>\<open>Error\<close>
  object with a given message (its own properties are not enumerable).
\<close>

definition rejecting_store :: "js_value \<Rightarrow> kv_namespace" where
  "rejecting_store err =
     \<lparr>getWithMetadata = (\<lambda>key. Inr (Some \<lparr>kv_value = None\<rparr>)),
      kv_list = (\<lambda>options.
        case opt_cursor options of
          None \<Rightarrow> Inr \<lparr>lr_keys = [\<lparr>key_name = ''a.json''\<rparr>], lr_cursor = Some ''page2''\<rparr>
        | Some c \<Rightarrow> Inl err)\<rparr>"

definition error_object :: "string \<Rightarrow> js_value" where
  "error_object m =
     JObject [(''name'', Holds (JString ''Error'')), (''message'', Holds (JString m))]
       (Rendered ''{}'')"

definition failing_store :: kv_namespace where
  "failing_store = rejecting_store (error_object ''KV list failed'')"

text \<open>A store whose first page carries the empty string as its cursor.\<close>

definition empty_cursor_store :: kv_namespace where
  "empty_cursor_store =
     \<lparr>getWithMetadata = (\<lambda>key. Inr (Some \<lparr>kv_value = None\<rparr>)),
      kv_list = (\<lambda>options.
        case opt_cursor options of
          None \<Rightarrow> Inr \<lparr>lr_keys = [\<lparr>key_name = ''a.json''\<rparr>], lr_cursor = Some []\<rparr>
        | Some c \<Rightarrow> Inr \<lparr>lr_keys = [\<lparr>key_name = ''b.json''\<rparr>], lr_cursor = None\<rparr>)\<rparr>"

text \<open>A store that answers every listing call with the same cursor.\<close>

definition looping_store :: kv_namespace where
  "looping_store =
     \<lparr>getWithMetadata = (\<lambda>key. Inr (Some \<lparr>kv_value = None\<rparr>)),
      kv_list = (\<lambda>options.
        Inr \<lparr>lr_keys = [\<lparr>key_name = ''a.json''\<rparr>], lr_cursor = Some ''again''\<rparr>)\<rparr>"

text \<open>A stand-in for the platform's digest, and requests without and with a header.\<close>

definition example_digest :: "byte list \<Rightarrow> byte list" where
  "example_digest bs = [0x0A, 0xFF, of_nat (length bs)]"

definition get_request :: "string \<Rightarrow> request" where
  "get_request p = \<lparr>pathname = p, headers_get = (\<lambda>name. None)\<rparr>"

definition conditional_request :: "string \<Rightarrow> string \<Rightarrow> request" where
  "conditional_request p v =
     \<lparr>pathname = p, headers_get = (\<lambda>name. if name = ''If-None-Match'' then Some v else None)\<rparr>"

text \<open>The same request carrying \<^verbatim>\<open>If-None-Match: v\<close>.\<close>

definition with_if_none_match :: "request \<Rightarrow> string \<Rightarrow> request" where
  "with_if_none_match request v =
     request\<lparr>headers_get := (headers_get request)(''If-None-Match'' \<mapsto> v)\<rparr>"

section \<open>Key derivation\<close>

lemma endsWith_suffix: "endsWith s t = suffix t s"
  by (metis endsWith_def suffix_drop suffix_length_le suffix_def append_eq_conv_conj
      length_append diff_add_inverse2)

lemma leading_slashes_split:
  "p = replicate (length (takeWhile (\<lambda>c. c = CHR ''/'') p)) (CHR ''/'') @ replace_leading_slashes p"
  by (induction p) simp_all

lemma no_leading_slash: "\<not> prefix ''/'' (replace_leading_slashes p)"
  by (induction p) simp_all

lemma replace_leading_slashes_id: "\<not> prefix ''/'' s \<Longrightarrow> replace_leading_slashes s = s"
  by (cases s) simp_all

lemma storage_key_suffix: "suffix ''.json'' (storage_key p)"
  by (simp add: storage_key_def Let_def endsWith_suffix suffix_def)

lemma storage_key_no_slash: "\<not> prefix ''/'' (storage_key p)"
  using no_leading_slash [of p]
  by (cases "replace_leading_slashes p") (simp_all add: storage_key_def Let_def)

lemma storage_key_idem: "storage_key (storage_key p) = storage_key p"
  using storage_key_suffix [of p] storage_key_no_slash [of p]
  by (simp add: storage_key_def [of "storage_key p"] Let_def replace_leading_slashes_id
      endsWith_suffix)

text \<open>
  Claim C2. For every path \<open>p\<close> the key is \<open>p\<close> without its leading slashes (what is
  removed is a run of slashes, and what is left does not start with one), with
  \<^verbatim>\<open>.json\<close> appended exactly when that rest does not already end with it. So every
  key ends with \<^verbatim>\<open>.json\<close> and deriving the key of a key changes nothing. The
  derivation is a total function of the path alone.
\<close>

theorem storage_key_derivation:
  "(\<exists>n. p = replicate n (CHR ''/'') @ replace_leading_slashes p)
   \<and> \<not> prefix ''/'' (replace_leading_slashes p)
   \<and> storage_key p =
       (if suffix ''.json'' (replace_leading_slashes p) then replace_leading_slashes p
        else replace_leading_slashes p @ ''.json'')
   \<and> suffix ''.json'' (storage_key p)
   \<and> storage_key (storage_key p) = storage_key p"
  using leading_slashes_split [of p] no_leading_slash [of p] storage_key_suffix [of p]
    storage_key_idem [of p]
  by (auto simp: storage_key_def Let_def endsWith_suffix)

theorem storage_key_derivation_witness:
  "storage_key ''//docs/a'' = ''docs/a.json'' \<and> storage_key ''/docs/a.json'' = ''docs/a.json''"
proof -
  have "storage_key ''//docs/a'' =
      (if suffix ''.json'' (replace_leading_slashes ''//docs/a'')
       then replace_leading_slashes ''//docs/a''
       else replace_leading_slashes ''//docs/a'' @ ''.json'')"
    using storage_key_derivation [of "''//docs/a''"] by blast
  moreover have "storage_key ''/docs/a.json'' =
      (if suffix ''.json'' (replace_leading_slashes ''/docs/a.json'')
       then replace_leading_slashes ''/docs/a.json''
       else replace_leading_slashes ''/docs/a.json'' @ ''.json'')"
    using storage_key_derivation [of "''/docs/a.json''"] by blast
  ultimately show ?thesis
    by (simp add: endsWith_suffix [symmetric] endsWith_def)
qed

lemma strip_replicate:
  "replace_leading_slashes (replicate n (CHR ''/'') @ p) = replace_leading_slashes p"
  by (induction n) simp_all

lemma same_stripped_iff:
  "replace_leading_slashes p1 = replace_leading_slashes p2 \<longleftrightarrow>
     (\<exists>n. p1 = replicate n (CHR ''/'') @ p2 \<or> p2 = replicate n (CHR ''/'') @ p1)"
proof
  assume eq: "replace_leading_slashes p1 = replace_leading_slashes p2"
  let ?k1 = "length (takeWhile (\<lambda>c. c = CHR ''/'') p1)"
  let ?k2 = "length (takeWhile (\<lambda>c. c = CHR ''/'') p2)"
  have s1: "p1 = replicate ?k1 (CHR ''/'') @ replace_leading_slashes p1"
    by (rule leading_slashes_split)
  have s2: "p2 = replicate ?k2 (CHR ''/'') @ replace_leading_slashes p2"
    by (rule leading_slashes_split)
  show "\<exists>n. p1 = replicate n (CHR ''/'') @ p2 \<or> p2 = replicate n (CHR ''/'') @ p1"
  proof (cases "?k2 \<le> ?k1")
    case True
    then have "replicate ?k1 (CHR ''/'')
        = replicate (?k1 - ?k2) (CHR ''/'') @ replicate ?k2 (CHR ''/'')"
      by (simp add: replicate_add [symmetric])
    with s1 s2 eq have "p1 = replicate (?k1 - ?k2) (CHR ''/'') @ p2"
      by (metis append.assoc)
    then show ?thesis by blast
  next
    case False
    then have "replicate ?k2 (CHR ''/'')
        = replicate (?k2 - ?k1) (CHR ''/'') @ replicate ?k1 (CHR ''/'')"
      by (simp add: replicate_add [symmetric])
    with s1 s2 eq have "p2 = replicate (?k2 - ?k1) (CHR ''/'') @ p1"
      by (metis append.assoc)
    then show ?thesis by blast
  qed
next
  assume "\<exists>n. p1 = replicate n (CHR ''/'') @ p2 \<or> p2 = replicate n (CHR ''/'') @ p1"
  then show "replace_leading_slashes p1 = replace_leading_slashes p2"
    by (auto simp: strip_replicate)
qed

text \<open>
  Claim C9, as stated: no two distinct paths have the same key. It fails: the paths
  \<^verbatim>\<open>/a\<close> and \<^verbatim>\<open>/a.json\<close> are distinct and both have the key \<^verbatim>\<open>a.json\<close>.
\<close>

theorem storage_key_collision:
  "storage_key ''/a'' = storage_key ''/a.json'' \<and> ''/a'' \<noteq> ''/a.json''"
  by (simp add: storage_key_def endsWith_def)

text \<open>
  Claim C9, amended. Two paths have the same key exactly when, without their leading
  slashes, they are equal, or one of them does not end with \<^verbatim>\<open>.json\<close> and the other is
  it with \<^verbatim>\<open>.json\<close> appended. The paths are equal without their leading slashes exactly
  when one of them is the other behind some more slashes. Every other two paths have
  distinct keys.
\<close>

theorem storage_key_equal_iff:
  "(storage_key p1 = storage_key p2 \<longleftrightarrow>
      replace_leading_slashes p1 = replace_leading_slashes p2
      \<or> (\<not> suffix ''.json'' (replace_leading_slashes p1)
           \<and> replace_leading_slashes p2 = replace_leading_slashes p1 @ ''.json'')
      \<or> (\<not> suffix ''.json'' (replace_leading_slashes p2)
           \<and> replace_leading_slashes p1 = replace_leading_slashes p2 @ ''.json''))
   \<and> (replace_leading_slashes p1 = replace_leading_slashes p2 \<longleftrightarrow>
        (\<exists>n. p1 = replicate n (CHR ''/'') @ p2 \<or> p2 = replicate n (CHR ''/'') @ p1))"
proof (intro conjI)
  have sfx: "suffix ''.json'' (s @ ''.json'')" for s :: string
    by (simp add: suffix_def)
  show "storage_key p1 = storage_key p2 \<longleftrightarrow>
      replace_leading_slashes p1 = replace_leading_slashes p2
      \<or> (\<not> suffix ''.json'' (replace_leading_slashes p1)
           \<and> replace_leading_slashes p2 = replace_leading_slashes p1 @ ''.json'')
      \<or> (\<not> suffix ''.json'' (replace_leading_slashes p2)
           \<and> replace_leading_slashes p1 = replace_leading_slashes p2 @ ''.json'')"
    using sfx [of "replace_leading_slashes p1"] sfx [of "replace_leading_slashes p2"]
    by (auto simp: storage_key_def Let_def endsWith_suffix)
  show "replace_leading_slashes p1 = replace_leading_slashes p2 \<longleftrightarrow>
        (\<exists>n. p1 = replicate n (CHR ''/'') @ p2 \<or> p2 = replicate n (CHR ''/'') @ p1)"
    by (rule same_stripped_iff)
qed

theorem storage_key_equal_iff_witness:
  "storage_key ''/a'' = storage_key ''/a.json''
   \<and> storage_key ''/a'' = storage_key ''//a''
   \<and> storage_key ''/a.json'' \<noteq> storage_key ''/a.json.json''
   \<and> storage_key ''/a'' \<noteq> storage_key ''//b''
   \<and> storage_key ''/a'' \<noteq> storage_key ''/b.json''"
  using storage_key_equal_iff [THEN conjunct1, of "''/a''" "''/a.json''"]
    storage_key_equal_iff [THEN conjunct1, of "''/a''" "''//a''"]
    storage_key_equal_iff [THEN conjunct1, of "''/a.json''" "''/a.json.json''"]
    storage_key_equal_iff [THEN conjunct1, of "''/a''" "''//b''"]
    storage_key_equal_iff [THEN conjunct1, of "''/a''" "''/b.json''"]
  by (simp add: endsWith_suffix [symmetric] endsWith_def)

section \<open>JSON text of the error bodies\<close>

lemma json_escape_plain: "json_plain c \<Longrightarrow> json_escape_char c = [c]"
  by (auto simp: json_plain_def json_escape_char_def)

lemma concat_escape_plain: "list_all json_plain s \<Longrightarrow> concat (map json_escape_char s) = s"
  by (induction s) (simp_all add: json_escape_plain)

lemma json_string_plain: "list_all json_plain s \<Longrightarrow> json_string s = [dquote] @ s @ [dquote]"
  by (simp add: json_string_def concat_escape_plain)

lemma plain_replace_leading_slashes:
  "list_all json_plain p \<Longrightarrow> list_all json_plain (replace_leading_slashes p)"
  by (induction p) simp_all

lemma plain_storage_key: "list_all json_plain p \<Longrightarrow> list_all json_plain (storage_key p)"
  by (simp add: storage_key_def Let_def plain_replace_leading_slashes json_plain_def dquote_def)

lemma json_string_error: \<open>json_string ''error'' = ''"error"''\<close>
  by (simp add: json_string_def json_escape_char_def dquote_def)

lemma not_found_body:
  assumes "list_all json_plain k"
  shows \<open>json_object [(''error'', ''JSON not found for key: '' @ k)]
       = ''{"error":"JSON not found for key: '' @ k @ ''"}''\<close>
proof -
  have "list_all json_plain (''JSON not found for key: '' @ k)"
    using assms by (simp add: json_plain_def dquote_def)
  then show ?thesis
    by (simp add: json_object_def json_string_plain json_string_error) (simp add: dquote_def)
qed

lemma json_string_failed: \<open>json_string ''Failed to list keys'' = ''"Failed to list keys"''\<close>
  by (simp add: json_string_def json_escape_char_def dquote_def)

lemma json_string_details: \<open>json_string ''details'' = ''"details"''\<close>
  by (simp add: json_string_def json_escape_char_def dquote_def)

lemma failure_body:
  \<open>json_stringify_object [(''error'', JString ''Failed to list keys''), (''details'', m)] =
     (case json_property m of
        Rendered t \<Rightarrow> Inr (''{"error":"Failed to list keys","details":'' @ t @ ''}'')
      | Omitted \<Rightarrow> Inr ''{"error":"Failed to list keys"}''
      | Throws e \<Rightarrow> Inl e)\<close>
  by (cases "json_property m")
     (simp_all add: json_stringify_object_def json_string_error json_string_failed
        json_string_details)



section \<open>The document path\<close>

text \<open>
  Claim C3. For a path other than \<^verbatim>\<open>/list-keys\<close> (any path a parsed URL can have)
  whose key the store has no object for, or an object with no value or with the empty
  string, the handler resolves to the status 404 with exactly the body
  \<^verbatim>\<open>{"error":"JSON not found for key: <key>"}\<close> on the derived key.
\<close>

theorem fetch_not_found:
  assumes "pathname request \<noteq> ''/list-keys''"
    and "list_all json_plain (pathname request)"
    and "getWithMetadata (APP_JSON env) (storage_key (pathname request)) = Inr object"
    and "object = None \<or> object = Some \<lparr>kv_value = None\<rparr> \<or> object = Some \<lparr>kv_value = Some []\<rparr>"
  shows \<open>fetch digest request env =
     Some (Inr \<lparr>status = 404,
       body = Some (''{"error":"JSON not found for key: '' @ storage_key (pathname request) @ ''"}''),
       headers = [(''Content-Type'', ''application/json'')]\<rparr>)\<close>
proof -
  have "stored_text object = None"
    using assms(4) by (auto simp: stored_text_def)
  then show ?thesis
    using assms(1,3) not_found_body [OF plain_storage_key [OF assms(2)]]
    by (simp add: fetch_def Let_def)
qed

theorem fetch_not_found_witness:
  \<open>fetch example_digest (get_request ''/missing'') \<lparr>APP_JSON = example_store\<rparr> =
     Some (Inr \<lparr>status = 404,
       body = Some ''{"error":"JSON not found for key: missing.json"}'',
       headers = [(''Content-Type'', ''application/json'')]\<rparr>)
   \<and> fetch example_digest (get_request ''/empty'') \<lparr>APP_JSON = example_store\<rparr> =
     Some (Inr \<lparr>status = 404,
       body = Some ''{"error":"JSON not found for key: empty.json"}'',
       headers = [(''Content-Type'', ''application/json'')]\<rparr>)\<close>
proof -
  have k1: "storage_key ''/missing'' = ''missing.json''"
    and k2: "storage_key ''/empty'' = ''empty.json''"
    by (simp_all add: storage_key_def endsWith_def)
  have p1: "list_all json_plain (pathname (get_request ''/missing''))"
    and p2: "list_all json_plain (pathname (get_request ''/empty''))"
    by (simp_all add: get_request_def json_plain_def dquote_def)
  have n1: "pathname (get_request ''/missing'') \<noteq> ''/list-keys''"
    and n2: "pathname (get_request ''/empty'') \<noteq> ''/list-keys''"
    by (simp_all add: get_request_def)
  have g1: "getWithMetadata (APP_JSON \<lparr>APP_JSON = example_store\<rparr>)
        (storage_key (pathname (get_request ''/missing''))) = Inr (Some \<lparr>kv_value = None\<rparr>)"
    and g2: "getWithMetadata (APP_JSON \<lparr>APP_JSON = example_store\<rparr>)
        (storage_key (pathname (get_request ''/empty''))) = Inr (Some \<lparr>kv_value = Some []\<rparr>)"
    by (simp_all add: get_request_def k1 k2 example_store_def)
  show ?thesis
    using fetch_not_found [OF n1 p1 g1, of example_digest]
      fetch_not_found [OF n2 p2 g2, of example_digest]
    by (simp add: get_request_def k1 k2)
qed

subsection \<open>Validation tokens\<close>

lemma hex_digit_not_dquote: "hex_digit d \<noteq> dquote"
proof -
  have "hex_digit d \<in> set ''0123456789abcdef''"
    unfolding hex_digit_def by (rule nth_mem) simp
  then show ?thesis by (auto simp: dquote_def)
qed

lemma toString16_no_dquote: "dquote \<notin> set (toString16 n)"
proof (induction n rule: toString16.induct)
  case (1 n)
  show ?case
  proof (cases "n < 16")
    case True
    then show ?thesis
      using hex_digit_not_dquote [of n] by (subst toString16.simps) auto
  next
    case False
    then show ?thesis
      using 1 hex_digit_not_dquote [of "n mod 16"] by (subst toString16.simps) auto
  qed
qed

lemma sha1_no_dquote: "dquote \<notin> set (sha1 digest data)"
  using toString16_no_dquote
  by (auto simp: sha1_def Let_def padStart_def dquote_def)

lemma replace_trailing_quotes_end:
  "dquote \<notin> set s \<Longrightarrow> replace_trailing_quotes (s @ [dquote]) = s"
  by (induction s) (auto simp: list_all_iff)

lemma replace_surrounding_quotes_quoted:
  assumes "dquote \<notin> set s"
  shows "replace_surrounding_quotes ([dquote] @ s @ [dquote]) = s"
  using assms replace_trailing_quotes_end [OF assms]
  by (cases s) (auto simp: replace_surrounding_quotes_def)

lemma replace_weak_prefix_quoted: "replace_weak_prefix (dquote # s) = dquote # s"
  by (cases s) (simp_all add: dquote_def)

lemma example_sha1: \<open>sha1 example_digest ''{"a":1}'' = ''0aff07''\<close>
  by (simp add: sha1_def encode_def example_digest_def padStart_def toString16.simps
      hex_digit_def)

lemma example_key: "storage_key ''/docs/a'' = ''docs/a.json''"
  by (simp add: storage_key_def endsWith_def)

text \<open>
  Claim C4. For a stored document with non-empty content, the fetch without a
  conditional header resolves to a 200 response with an \<^verbatim>\<open>ETag\<close>, and the same request
  with that \<^verbatim>\<open>ETag\<close> as its \<^verbatim>\<open>If-None-Match\<close> resolves to the status 304 with no body, the
  same \<^verbatim>\<open>ETag\<close> and \<^verbatim>\<open>Access-Control-Expose-Headers: ETag\<close>.
\<close>

theorem etag_round_trip:
  assumes "pathname request \<noteq> ''/list-keys''"
    and "getWithMetadata (APP_JSON env) (storage_key (pathname request))
           = Inr (Some \<lparr>kv_value = Some jsonString\<rparr>)"
    and "jsonString \<noteq> []"
  shows \<open>\<exists>r1 etag.
     fetch digest (request\<lparr>headers_get := (headers_get request)(''If-None-Match'' := None)\<rparr>) env
       = Some (Inr r1)
     \<and> status r1 = 200
     \<and> response_header r1 ''ETag'' = Some etag
     \<and> fetch digest (request\<lparr>headers_get := (headers_get request)(''If-None-Match'' \<mapsto> etag)\<rparr>) env
       = Some (Inr \<lparr>status = 304, body = None,
           headers = [(''ETag'', etag),
                      (''Access-Control-Allow-Origin'', ''*''),
                      (''Access-Control-Expose-Headers'', ''ETag'')]\<rparr>)\<close>
proof -
  let ?etag = "[dquote] @ sha1 digest jsonString @ [dquote]"
  have norm: "replace_surrounding_quotes ?etag = sha1 digest jsonString"
    by (rule replace_surrounding_quotes_quoted [OF sha1_no_dquote])
  have inm: "normalize_if_none_match (Some ?etag) = Some (sha1 digest jsonString)"
    using norm replace_weak_prefix_quoted [of "sha1 digest jsonString @ [dquote]"]
    by (simp add: normalize_if_none_match_def)
  have st: "stored_text (Some \<lparr>kv_value = Some jsonString\<rparr>) = Some jsonString"
    using assms(3) by (simp add: stored_text_def)
  have first:
    "fetch digest (request\<lparr>headers_get := (headers_get request)(''If-None-Match'' := None)\<rparr>) env
      = Some (Inr \<lparr>status = 200, body = Some jsonString,
         headers = [(''Content-Type'', ''application/json''),
                    (''Access-Control-Allow-Origin'', ''*''),
                    (''Cache-Control'', ''public, max-age=300''),
                    (''ETag'', ?etag)]\<rparr>)"
    using assms(1,2) st by (simp add: fetch_def Let_def normalize_if_none_match_def)
  have second:
    "fetch digest (request\<lparr>headers_get := (headers_get request)(''If-None-Match'' \<mapsto> ?etag)\<rparr>) env
      = Some (Inr \<lparr>status = 304, body = None,
           headers = [(''ETag'', ?etag),
                      (''Access-Control-Allow-Origin'', ''*''),
                      (''Access-Control-Expose-Headers'', ''ETag'')]\<rparr>)"
    using assms(1,2) st inm norm by (simp add: fetch_def Let_def)
  show ?thesis
    using first second by (simp add: response_header_def)
qed

theorem etag_round_trip_witness:
  \<open>\<exists>r1 etag.
     fetch example_digest (get_request ''/docs/a'') \<lparr>APP_JSON = example_store\<rparr> = Some (Inr r1)
     \<and> status r1 = 200
     \<and> response_header r1 ''ETag'' = Some etag
     \<and> fetch example_digest (conditional_request ''/docs/a'' etag) \<lparr>APP_JSON = example_store\<rparr>
       = Some (Inr \<lparr>status = 304, body = None,
           headers = [(''ETag'', etag),
                      (''Access-Control-Allow-Origin'', ''*''),
                      (''Access-Control-Expose-Headers'', ''ETag'')]\<rparr>)\<close>
proof -
  have n: "pathname (get_request ''/docs/a'') \<noteq> ''/list-keys''"
    by (simp add: get_request_def)
  have g: \<open>getWithMetadata (APP_JSON \<lparr>APP_JSON = example_store\<rparr>)
        (storage_key (pathname (get_request ''/docs/a''))) = Inr (Some \<lparr>kv_value = Some ''{"a":1}''\<rparr>)\<close>
    by (simp add: get_request_def example_key example_store_def)
  have d: \<open>''{"a":1}'' \<noteq> []\<close>
    by simp
  have same: "(get_request p)\<lparr>headers_get := (headers_get (get_request p))(''If-None-Match'' := None)\<rparr>
      = get_request p" for p
    by (simp add: get_request_def fun_upd_def)
  have cond: "(get_request p)\<lparr>headers_get := (headers_get (get_request p))(''If-None-Match'' \<mapsto> v)\<rparr>
      = conditional_request p v" for p v
    by (auto simp: get_request_def conditional_request_def fun_upd_def)
  show ?thesis
    using etag_round_trip [OF n g d, of example_digest] unfolding same cond .
qed

lemma replace_leading_quotes_all:
  "list_all (\<lambda>x. x = dquote) t \<Longrightarrow> replace_leading_quotes t = []"
  by (induction t) simp_all

lemma replace_leading_quotes_snoc:
  "replace_leading_quotes (t @ [dquote]) =
     (if list_all (\<lambda>x. x = dquote) t then [] else replace_leading_quotes t @ [dquote])"
  by (induction t) simp_all

lemma replace_trailing_quotes_snoc:
  "replace_trailing_quotes (u @ [dquote]) = replace_trailing_quotes u"
  by (induction u) simp_all

lemma replace_surrounding_quotes_wrap:
  "replace_surrounding_quotes (dquote # t @ [dquote]) = replace_surrounding_quotes t"
  by (simp add: replace_surrounding_quotes_def replace_leading_quotes_snoc
      replace_leading_quotes_all replace_trailing_quotes_snoc)

lemma all_quotes_suffix:
  "list_all (\<lambda>x. x = dquote) t \<Longrightarrow> t \<noteq> [] \<Longrightarrow> suffix [dquote] t"
  by (induction t) (auto simp: suffix_Cons)

lemma replace_trailing_quotes_id:
  "\<not> suffix [dquote] t \<Longrightarrow> replace_trailing_quotes t = t"
proof (induction t)
  case Nil
  then show ?case by simp
next
  case (Cons c cs)
  have "\<not> suffix [dquote] cs"
    using Cons.prems by (auto simp: suffix_Cons)
  moreover have "\<not> list_all (\<lambda>x. x = dquote) (c # cs)"
    using Cons.prems all_quotes_suffix [of "c # cs"] by blast
  ultimately show ?case using Cons.IH by simp
qed

lemma replace_surrounding_quotes_bare:
  "\<not> prefix [dquote] t \<Longrightarrow> \<not> suffix [dquote] t \<Longrightarrow> replace_surrounding_quotes t = t"
proof -
  assume p: "\<not> prefix [dquote] t" and s: "\<not> suffix [dquote] t"
  from p have "replace_leading_quotes t = t"
    by (cases t) simp_all
  with s show ?thesis
    by (simp add: replace_surrounding_quotes_def replace_trailing_quotes_id)
qed

lemma replace_weak_prefix_other: "\<not> prefix ''W/'' t \<Longrightarrow> replace_weak_prefix t = t"
  by (cases t rule: replace_weak_prefix.cases) auto

lemma normalize_quoted:
  "normalize_if_none_match (Some (dquote # t @ [dquote])) = Some (replace_surrounding_quotes t)"
  using replace_weak_prefix_quoted [of "t @ [dquote]"]
  by (simp add: normalize_if_none_match_def replace_surrounding_quotes_wrap)

lemma normalize_weak_quoted:
  "normalize_if_none_match (Some (CHR ''W'' # CHR ''/'' # dquote # t @ [dquote]))
     = Some (replace_surrounding_quotes t)"
  by (simp add: normalize_if_none_match_def replace_surrounding_quotes_wrap)

lemma normalize_weak_bare:
  "normalize_if_none_match (Some (CHR ''W'' # CHR ''/'' # t)) = Some (replace_surrounding_quotes t)"
  by (simp add: normalize_if_none_match_def)

lemma normalize_bare:
  "\<not> prefix ''W/'' t \<Longrightarrow> normalize_if_none_match (Some t) = Some (replace_surrounding_quotes t)"
  by (simp add: normalize_if_none_match_def replace_weak_prefix_other)

lemma fetch_by_normal_form:
  assumes "normalize_if_none_match (Some v) = normalize_if_none_match (Some w)"
  shows "fetch digest (with_if_none_match request v) env
       = fetch digest (with_if_none_match request w) env"
  using assms
  by (simp add: fetch_def Let_def with_if_none_match_def split: sum.splits option.splits)

lemma with_if_none_match_get: "with_if_none_match (get_request p) v = conditional_request p v"
  by (auto simp: with_if_none_match_def get_request_def conditional_request_def fun_upd_def)

text \<open>
  Claim C5. For every request, store and token \<open>t\<close>, the request with
  \<^verbatim>\<open>If-None-Match: W/"t"\<close> gets the very response of the same request with
  \<^verbatim>\<open>If-None-Match: "t"\<close>. The quotes are stripped as well: the token without them,
  behind \<^verbatim>\<open>W/\<close> or alone (when it does not itself start with \<^verbatim>\<open>W/\<close>), gets that
  response too. And the decision is taken on the bare token: for a stored document
  and a token with no quote at either end, the response is the 304 when the token is
  the fingerprint of the document, and the full 200 otherwise.
\<close>

theorem weak_validator_same:
  \<open>fetch digest (with_if_none_match request (''W/"'' @ t @ ''"'')) env
     = fetch digest (with_if_none_match request (''"'' @ t @ ''"'')) env
   \<and> fetch digest (with_if_none_match request (''W/'' @ t)) env
     = fetch digest (with_if_none_match request (''"'' @ t @ ''"'')) env
   \<and> (\<not> prefix ''W/'' t \<longrightarrow>
        fetch digest (with_if_none_match request t) env
        = fetch digest (with_if_none_match request (''"'' @ t @ ''"'')) env)
   \<and> (pathname request \<noteq> ''/list-keys''
        \<and> getWithMetadata (APP_JSON env) (storage_key (pathname request))
            = Inr (Some \<lparr>kv_value = Some jsonString\<rparr>)
        \<and> jsonString \<noteq> [] \<and> \<not> prefix ''"'' t \<and> \<not> suffix ''"'' t \<longrightarrow>
        fetch digest (with_if_none_match request (''"'' @ t @ ''"'')) env =
          (if t = sha1 digest jsonString
           then Some (Inr \<lparr>status = 304, body = None,
                  headers = [(''ETag'', ''"'' @ sha1 digest jsonString @ ''"''),
                             (''Access-Control-Allow-Origin'', ''*''),
                             (''Access-Control-Expose-Headers'', ''ETag'')]\<rparr>)
           else Some (Inr \<lparr>status = 200, body = Some jsonString,
                  headers = [(''Content-Type'', ''application/json''),
                             (''Access-Control-Allow-Origin'', ''*''),
                             (''Cache-Control'', ''public, max-age=300''),
                             (''ETag'', ''"'' @ sha1 digest jsonString @ ''"'')]\<rparr>)))\<close>
proof (intro conjI impI)
  show \<open>fetch digest (with_if_none_match request (''W/"'' @ t @ ''"'')) env
     = fetch digest (with_if_none_match request (''"'' @ t @ ''"'')) env\<close>
    using normalize_quoted [of t] normalize_weak_quoted [of t]
    by (intro fetch_by_normal_form) (simp add: dquote_def)
  show \<open>fetch digest (with_if_none_match request (''W/'' @ t)) env
     = fetch digest (with_if_none_match request (''"'' @ t @ ''"'')) env\<close>
    using normalize_quoted [of t] normalize_weak_bare [of t]
    by (intro fetch_by_normal_form) (simp add: dquote_def)
  show \<open>fetch digest (with_if_none_match request t) env
        = fetch digest (with_if_none_match request (''"'' @ t @ ''"'')) env\<close>
    if "\<not> prefix ''W/'' t"
    using normalize_quoted [of t] normalize_bare [OF that]
    by (intro fetch_by_normal_form) (simp add: dquote_def)
next
  assume h: \<open>pathname request \<noteq> ''/list-keys''
        \<and> getWithMetadata (APP_JSON env) (storage_key (pathname request))
            = Inr (Some \<lparr>kv_value = Some jsonString\<rparr>)
        \<and> jsonString \<noteq> [] \<and> \<not> prefix ''"'' t \<and> \<not> suffix ''"'' t\<close>
  then have bare: "replace_surrounding_quotes t = t"
    by (intro replace_surrounding_quotes_bare) (simp_all add: dquote_def)
  have etag: "replace_surrounding_quotes ([dquote] @ sha1 digest jsonString @ [dquote])
      = sha1 digest jsonString"
    by (rule replace_surrounding_quotes_quoted [OF sha1_no_dquote])
  have st: "stored_text (Some \<lparr>kv_value = Some jsonString\<rparr>) = Some jsonString"
    using h by (simp add: stored_text_def)
  have inm: \<open>normalize_if_none_match (Some (''"'' @ t @ ''"'')) = Some t\<close>
    using normalize_quoted [of t] bare by (simp add: dquote_def)
  show \<open>fetch digest (with_if_none_match request (''"'' @ t @ ''"'')) env =
          (if t = sha1 digest jsonString
           then Some (Inr \<lparr>status = 304, body = None,
                  headers = [(''ETag'', ''"'' @ sha1 digest jsonString @ ''"''),
                             (''Access-Control-Allow-Origin'', ''*''),
                             (''Access-Control-Expose-Headers'', ''ETag'')]\<rparr>)
           else Some (Inr \<lparr>status = 200, body = Some jsonString,
                  headers = [(''Content-Type'', ''application/json''),
                             (''Access-Control-Allow-Origin'', ''*''),
                             (''Cache-Control'', ''public, max-age=300''),
                             (''ETag'', ''"'' @ sha1 digest jsonString @ ''"'')]\<rparr>))\<close>
    using h st inm etag
    by (simp add: fetch_def Let_def with_if_none_match_def dquote_def)
qed

theorem weak_validator_same_witness:
  \<open>fetch example_digest (conditional_request ''/docs/a'' ''"0aff07"'') \<lparr>APP_JSON = example_store\<rparr>
     = Some (Inr \<lparr>status = 304, body = None,
           headers = [(''ETag'', ''"0aff07"''),
                      (''Access-Control-Allow-Origin'', ''*''),
                      (''Access-Control-Expose-Headers'', ''ETag'')]\<rparr>)
   \<and> fetch example_digest (conditional_request ''/docs/a'' ''W/"0aff07"'') \<lparr>APP_JSON = example_store\<rparr>
     = fetch example_digest (conditional_request ''/docs/a'' ''"0aff07"'') \<lparr>APP_JSON = example_store\<rparr>
   \<and> fetch example_digest (conditional_request ''/docs/a'' ''W/0aff07'') \<lparr>APP_JSON = example_store\<rparr>
     = fetch example_digest (conditional_request ''/docs/a'' ''"0aff07"'') \<lparr>APP_JSON = example_store\<rparr>
   \<and> fetch example_digest (conditional_request ''/docs/a'' ''0aff07'') \<lparr>APP_JSON = example_store\<rparr>
     = fetch example_digest (conditional_request ''/docs/a'' ''"0aff07"'') \<lparr>APP_JSON = example_store\<rparr>\<close>
proof -
  have n: "pathname (get_request ''/docs/a'') \<noteq> ''/list-keys''"
    by (simp add: get_request_def)
  have g: \<open>getWithMetadata (APP_JSON \<lparr>APP_JSON = example_store\<rparr>)
        (storage_key (pathname (get_request ''/docs/a''))) = Inr (Some \<lparr>kv_value = Some ''{"a":1}''\<rparr>)\<close>
    by (simp add: get_request_def example_key example_store_def)
  have d: \<open>''{"a":1}'' \<noteq> []\<close>
    by simp
  have w: "\<not> prefix ''W/'' ''0aff07''"
    by simp
  have q: \<open>\<not> prefix ''"'' ''0aff07'' \<and> \<not> suffix ''"'' ''0aff07''\<close>
    by (simp add: suffix_Cons)
  note T = weak_validator_same [of example_digest "get_request ''/docs/a''" "''0aff07''"
      "\<lparr>APP_JSON = example_store\<rparr>", unfolded with_if_none_match_get]
  have c1: \<open>fetch example_digest (conditional_request ''/docs/a'' (''W/"'' @ ''0aff07'' @ ''"''))
        \<lparr>APP_JSON = example_store\<rparr>
      = fetch example_digest (conditional_request ''/docs/a'' (''"'' @ ''0aff07'' @ ''"''))
        \<lparr>APP_JSON = example_store\<rparr>\<close>
    by (rule T [THEN conjunct1])
  have c2: \<open>fetch example_digest (conditional_request ''/docs/a'' (''W/'' @ ''0aff07''))
        \<lparr>APP_JSON = example_store\<rparr>
      = fetch example_digest (conditional_request ''/docs/a'' (''"'' @ ''0aff07'' @ ''"''))
        \<lparr>APP_JSON = example_store\<rparr>\<close>
    by (rule T [THEN conjunct2, THEN conjunct1])
  have c3: \<open>fetch example_digest (conditional_request ''/docs/a'' ''0aff07'')
        \<lparr>APP_JSON = example_store\<rparr>
      = fetch example_digest (conditional_request ''/docs/a'' (''"'' @ ''0aff07'' @ ''"''))
        \<lparr>APP_JSON = example_store\<rparr>\<close>
    by (rule T [THEN conjunct2, THEN conjunct2, THEN conjunct1, THEN mp, OF w])
  have c4: \<open>fetch example_digest (conditional_request ''/docs/a'' (''"'' @ ''0aff07'' @ ''"''))
        \<lparr>APP_JSON = example_store\<rparr>
      = (if ''0aff07'' = sha1 example_digest ''{"a":1}''
           then Some (Inr \<lparr>status = 304, body = None,
                  headers = [(''ETag'', ''"'' @ sha1 example_digest ''{"a":1}'' @ ''"''),
                             (''Access-Control-Allow-Origin'', ''*''),
                             (''Access-Control-Expose-Headers'', ''ETag'')]\<rparr>)
           else Some (Inr \<lparr>status = 200, body = Some ''{"a":1}'',
                  headers = [(''Content-Type'', ''application/json''),
                             (''Access-Control-Allow-Origin'', ''*''),
                             (''Cache-Control'', ''public, max-age=300''),
                             (''ETag'', ''"'' @ sha1 example_digest ''{"a":1}'' @ ''"'')]\<rparr>))\<close>
    by (rule T [THEN conjunct2, THEN conjunct2, THEN conjunct2, THEN mp,
          OF conjI [OF n conjI [OF g conjI [OF d q]]]])
  show ?thesis
    using c1 c2 c3 c4 by (simp add: example_sha1)
qed

text \<open>
  Claim C10. For a path other than \<^verbatim>\<open>/list-keys\<close> whose key has a non-empty stored value,
  a request without \<^verbatim>\<open>If-None-Match\<close> resolves to the full 200 response with the document
  as its body; and a 304 response is only ever given to a request that carries the
  header.
\<close>

theorem fetch_unconditional:
  assumes "pathname request \<noteq> ''/list-keys''"
    and "getWithMetadata (APP_JSON env) (storage_key (pathname request))
           = Inr (Some \<lparr>kv_value = Some jsonString\<rparr>)"
    and "jsonString \<noteq> []"
  shows \<open>(headers_get request ''If-None-Match'' = None \<longrightarrow>
     fetch digest request env =
       Some (Inr \<lparr>status = 200, body = Some jsonString,
         headers = [(''Content-Type'', ''application/json''),
                    (''Access-Control-Allow-Origin'', ''*''),
                    (''Cache-Control'', ''public, max-age=300''),
                    (''ETag'', ''"'' @ sha1 digest jsonString @ ''"'')]\<rparr>))
    \<and> (\<forall>r. fetch digest request env = Some (Inr r) \<and> status r = 304
           \<longrightarrow> headers_get request ''If-None-Match'' \<noteq> None)\<close>
  using assms
  by (auto simp: fetch_def Let_def stored_text_def normalize_if_none_match_def dquote_def
      split: option.splits)

theorem fetch_unconditional_witness:
  \<open>fetch example_digest (get_request ''/docs/a'') \<lparr>APP_JSON = example_store\<rparr> =
       Some (Inr \<lparr>status = 200, body = Some ''{"a":1}'',
         headers = [(''Content-Type'', ''application/json''),
                    (''Access-Control-Allow-Origin'', ''*''),
                    (''Cache-Control'', ''public, max-age=300''),
                    (''ETag'', ''"0aff07"'')]\<rparr>)\<close>
proof -
  have n: "pathname (get_request ''/docs/a'') \<noteq> ''/list-keys''"
    by (simp add: get_request_def)
  have g: \<open>getWithMetadata (APP_JSON \<lparr>APP_JSON = example_store\<rparr>)
        (storage_key (pathname (get_request ''/docs/a''))) = Inr (Some \<lparr>kv_value = Some ''{"a":1}''\<rparr>)\<close>
    by (simp add: get_request_def example_key example_store_def)
  have d: \<open>''{"a":1}'' \<noteq> []\<close>
    by simp
  have h: "headers_get (get_request ''/docs/a'') ''If-None-Match'' = None"
    by (simp add: get_request_def)
  show ?thesis
    using fetch_unconditional [OF n g d, of example_digest] h
    by (simp add: example_sha1)
qed

section \<open>Key enumeration\<close>

lemma cursor_truthy_iff: "cursor_truthy c \<longleftrightarrow> c \<noteq> None \<and> c \<noteq> Some []"
  by (cases c) simp_all

text \<open>One turn of the loop, with the options and the names of a page abbreviated.\<close>

lemma loop_unfold:
  "listAllKeys_loop kv keys cursor calls =
     (case kv_list kv (list_call cursor) of
        Inl err \<Rightarrow> Some (Inl err, calls @ [list_call cursor])
      | Inr r \<Rightarrow>
          if cursor_truthy (lr_cursor r)
          then listAllKeys_loop kv (keys @ page_names r) (lr_cursor r) (calls @ [list_call cursor])
          else Some (Inr (keys @ page_names r), calls @ [list_call cursor]))"
  by (subst listAllKeys_loop.simps)
     (simp add: Let_def list_call_def page_names_def split: sum.splits)

lemma loop_complete:
  "page_chain kv cursor pages \<Longrightarrow>
   listAllKeys_loop kv keys cursor calls =
     Some (Inr (keys @ concat (map page_names pages)),
           calls @ map list_call (cursor # map lr_cursor (butlast pages)))"
proof (induction kv cursor pages arbitrary: keys calls rule: page_chain.induct)
  case (1 kv cursor)
  then show ?case by simp
next
  case (2 kv cursor p)
  then show ?case
    by (subst loop_unfold) (auto simp: cursor_truthy_iff)
next
  case (3 kv cursor p q ps)
  then show ?case
    by (subst loop_unfold) (simp add: cursor_truthy_iff)
qed

lemma loop_sound:
  assumes "listAllKeys_loop kv keys cursor calls = Some out" and "fst out = Inr allKeys"
  shows "\<exists>pages. page_chain kv cursor pages
     \<and> allKeys = keys @ concat (map page_names pages)
     \<and> snd out = calls @ map list_call (cursor # map lr_cursor (butlast pages))"
  using assms
proof (induction rule: listAllKeys_loop.raw_induct [rotated 1, consumes 1, case_names step])
  case (step loop kv keys cursor calls out)
  show ?case
  proof (cases "kv_list kv (list_call cursor)")
    case (Inl err)
    with step(2,3) show ?thesis by (auto simp: Let_def list_call_def)
  next
    case (Inr r)
    show ?thesis
    proof (cases "cursor_truthy (lr_cursor r)")
      case True
      with Inr step(2)
      have "loop kv (keys @ page_names r) (lr_cursor r) (calls @ [list_call cursor]) = Some out"
        by (simp add: Let_def list_call_def page_names_def)
      from step(1) [OF this step(3)] obtain pages where
        pc: "page_chain kv (lr_cursor r) pages"
        and ak: "allKeys = (keys @ page_names r) @ concat (map page_names pages)"
        and cs: "snd out = (calls @ [list_call cursor])
                   @ map list_call (lr_cursor r # map lr_cursor (butlast pages))"
        by blast
      from pc obtain q qs where pages: "pages = q # qs"
        by (cases pages) auto
      have "page_chain kv cursor (r # pages)"
        using pc Inr True by (simp add: pages cursor_truthy_iff)
      moreover have "allKeys = keys @ concat (map page_names (r # pages))"
        using ak by simp
      moreover have "snd out = calls @ map list_call (cursor # map lr_cursor (butlast (r # pages)))"
        using cs by (simp add: pages)
      ultimately show ?thesis by blast
    next
      case False
      with Inr step(2,3)
      have "allKeys = keys @ page_names r" "snd out = calls @ [list_call cursor]"
        by (auto simp: Let_def list_call_def page_names_def)
      moreover have "page_chain kv cursor [r]"
        using Inr False by (simp add: cursor_truthy_iff)
      ultimately show ?thesis
        by (intro exI [of _ "[r]"]) simp
    qed
  qed
qed


subsection \<open>The paging store\<close>

lemma paged_list:
  "kv_list (paged_store ks) (list_call c) =
     Inr \<lparr>lr_keys = map (\<lambda>k. \<lparr>key_name = k\<rparr>) (take 1000 (drop (cursor_offset c) ks)),
          lr_cursor = if cursor_offset c + 1000 < length ks
                      then Some (replicate (cursor_offset c + 1000) (CHR ''c'')) else None\<rparr>"
  by (simp add: paged_store_def list_call_def Let_def)

lemma paged_loop:
  "\<exists>calls'. listAllKeys_loop (paged_store ks) keys c calls
       = Some (Inr (keys @ drop (cursor_offset c) ks), calls')
     \<and> length ks - cursor_offset c \<le> 1000 * (length calls' - length calls)"
proof (induction "length ks - cursor_offset c" arbitrary: c keys calls rule: less_induct)
  case less
  show ?case
  proof (cases "cursor_offset c + 1000 < length ks")
    case True
    let ?c' = "Some (replicate (cursor_offset c + 1000) (CHR ''c''))"
    let ?page = "take 1000 (drop (cursor_offset c) ks)"
    have off: "cursor_offset ?c' = cursor_offset c + 1000"
      by (simp add: cursor_offset_def)
    have "length ks - cursor_offset ?c' < length ks - cursor_offset c"
      using True off by simp
    from less [OF this, of "keys @ ?page" "calls @ [list_call c]"]
    obtain calls' where
      run: "listAllKeys_loop (paged_store ks) (keys @ ?page) ?c' (calls @ [list_call c])
            = Some (Inr ((keys @ ?page) @ drop (cursor_offset ?c') ks), calls')"
      and len: "length ks - cursor_offset ?c'
            \<le> 1000 * (length calls' - length (calls @ [list_call c]))"
      by blast
    have "?page @ drop (cursor_offset ?c') ks = drop (cursor_offset c) ks"
      unfolding off by (metis add.commute append_take_drop_id drop_drop)
    with run have "listAllKeys_loop (paged_store ks) keys c calls
        = Some (Inr (keys @ drop (cursor_offset c) ks), calls')"
      using True by (subst loop_unfold) (simp add: paged_list page_names_def comp_def)
    moreover have "length ks - cursor_offset c \<le> 1000 * (length calls' - length calls)"
      using len off True by simp
    ultimately show ?thesis by blast
  next
    case False
    then have "listAllKeys_loop (paged_store ks) keys c calls
        = Some (Inr (keys @ drop (cursor_offset c) ks), calls @ [list_call c])"
      by (subst loop_unfold) (simp add: paged_list page_names_def comp_def)
    moreover
    have "length ks - cursor_offset c \<le> 1000 * (length (calls @ [list_call c]) - length calls)"
      using False by simp
    ultimately show ?thesis by blast
  qed
qed

lemma listAllKeys_paged:
  "\<exists>calls. listAllKeys (paged_store ks) = Some (Inr ks, calls) \<and> length ks \<le> 1000 * length calls"
  using paged_loop [of ks "[]" None "[]"]
  by (simp add: listAllKeys_def cursor_offset_def)

lemma listAllKeys_2500:
  assumes "length ks = 2500"
  shows "listAllKeys (paged_store ks) =
     Some (Inr ks, [list_call None, list_call (Some (replicate 1000 (CHR ''c''))),
                    list_call (Some (replicate 2000 (CHR ''c'')))])"
proof -
  let ?p1 = "\<lparr>lr_keys = map (\<lambda>k. \<lparr>key_name = k\<rparr>) (take 1000 ks),
              lr_cursor = Some (replicate 1000 (CHR ''c''))\<rparr>"
  let ?p2 = "\<lparr>lr_keys = map (\<lambda>k. \<lparr>key_name = k\<rparr>) (take 1000 (drop 1000 ks)),
              lr_cursor = Some (replicate 2000 (CHR ''c''))\<rparr>"
  let ?p3 = "\<lparr>lr_keys = map (\<lambda>k. \<lparr>key_name = k\<rparr>) (take 1000 (drop 2000 ks)),
              lr_cursor = None\<rparr>"
  have "page_chain (paged_store ks) None [?p1, ?p2, ?p3]"
    using assms by (simp add: paged_list cursor_offset_def)
  from loop_complete [OF this, of "[]" "[]"]
  have "listAllKeys (paged_store ks) =
     Some (Inr (take 1000 ks @ take 1000 (drop 1000 ks) @ take 1000 (drop 2000 ks)),
       [list_call None, list_call (Some (replicate 1000 (CHR ''c''))),
        list_call (Some (replicate 2000 (CHR ''c'')))])"
    by (simp add: listAllKeys_def page_names_def comp_def)
  moreover have "take 1000 (drop 2000 ks) = drop 2000 ks"
    using assms by simp
  moreover have "take 1000 (drop 1000 ks) @ drop 2000 ks = drop 1000 ks"
    by (metis append_take_drop_id drop_drop numeral_Bit0)
  ultimately show ?thesis
    by simp
qed

lemma example_pages:
  "page_chain example_store None
     [\<lparr>lr_keys = [\<lparr>key_name = ''docs/a.json''\<rparr>, \<lparr>key_name = ''empty.json''\<rparr>],
       lr_cursor = Some ''page2''\<rparr>,
      \<lparr>lr_keys = [\<lparr>key_name = ''z.json''\<rparr>], lr_cursor = None\<rparr>]"
  by (simp add: example_store_def list_call_def)

text \<open>
  Claim C6, as stated: the enumeration stops exactly when the store returns no cursor.
  It fails: the first page of this store carries a cursor, the empty string, and the
  enumeration stops after that one call, without the key of the page the store has
  for that cursor.
\<close>

theorem listAllKeys_stops_on_empty_cursor:
  "kv_list empty_cursor_store \<lparr>opt_cursor = None, opt_limit = 1000\<rparr>
     = Inr \<lparr>lr_keys = [\<lparr>key_name = ''a.json''\<rparr>], lr_cursor = Some []\<rparr>
   \<and> kv_list empty_cursor_store \<lparr>opt_cursor = Some [], opt_limit = 1000\<rparr>
     = Inr \<lparr>lr_keys = [\<lparr>key_name = ''b.json''\<rparr>], lr_cursor = None\<rparr>
   \<and> listAllKeys empty_cursor_store
     = Some (Inr [''a.json''], [\<lparr>opt_cursor = None, opt_limit = 1000\<rparr>])"
  by (simp add: listAllKeys_def loop_unfold empty_cursor_store_def list_call_def page_names_def)

text \<open>
  Claim C6, amended. The enumeration returns the keys \<open>allKeys\<close> after the calls \<open>calls\<close>
  exactly when the store yields a chain of pages (each call with limit 1000 and the
  cursor of the page before, none at first; every page but the last with a non-empty
  cursor, the last with no cursor or the empty string) such that \<open>allKeys\<close> is the
  concatenation of the pages' key names in order and \<open>calls\<close> are the calls of the
  chain. A store that holds 2500 keys and pages them by the limit yields exactly
  those keys in order, in exactly three calls.
\<close>

theorem listAllKeys_pages:
  "(listAllKeys kv = Some (Inr allKeys, calls) \<longleftrightarrow>
      (\<exists>pages. page_chain kv None pages
         \<and> allKeys = concat (map page_names pages)
         \<and> calls = map list_call (None # map lr_cursor (butlast pages))))
   \<and> (length ks = 2500 \<longrightarrow>
        listAllKeys (paged_store ks) =
          Some (Inr ks, [list_call None, list_call (Some (replicate 1000 (CHR ''c''))),
                         list_call (Some (replicate 2000 (CHR ''c'')))]))"
proof (intro conjI iffI impI)
  assume "listAllKeys kv = Some (Inr allKeys, calls)"
  then show "\<exists>pages. page_chain kv None pages
         \<and> allKeys = concat (map page_names pages)
         \<and> calls = map list_call (None # map lr_cursor (butlast pages))"
    using loop_sound [of kv "[]" None "[]" "(Inr allKeys, calls)" allKeys]
    by (simp add: listAllKeys_def)
next
  assume "\<exists>pages. page_chain kv None pages
         \<and> allKeys = concat (map page_names pages)
         \<and> calls = map list_call (None # map lr_cursor (butlast pages))"
  then show "listAllKeys kv = Some (Inr allKeys, calls)"
    using loop_complete [of kv None _ "[]" "[]"]
    by (auto simp: listAllKeys_def)
next
  assume "length ks = 2500"
  then show "listAllKeys (paged_store ks) =
          Some (Inr ks, [list_call None, list_call (Some (replicate 1000 (CHR ''c''))),
                         list_call (Some (replicate 2000 (CHR ''c'')))])"
    by (rule listAllKeys_2500)
qed

theorem listAllKeys_pages_witness:
  "listAllKeys example_store =
     Some (Inr [''docs/a.json'', ''empty.json'', ''z.json''],
           [\<lparr>opt_cursor = None, opt_limit = 1000\<rparr>, \<lparr>opt_cursor = Some ''page2'', opt_limit = 1000\<rparr>])
   \<and> listAllKeys (paged_store example_keys) =
     Some (Inr example_keys,
           [\<lparr>opt_cursor = None, opt_limit = 1000\<rparr>,
            \<lparr>opt_cursor = Some (replicate 1000 (CHR ''c'')), opt_limit = 1000\<rparr>,
            \<lparr>opt_cursor = Some (replicate 2000 (CHR ''c'')), opt_limit = 1000\<rparr>])
   \<and> length example_keys = 2500"
proof -
  have len: "length example_keys = 2500"
    by (simp add: example_keys_def)
  have "\<exists>pages. page_chain example_store None pages
      \<and> [''docs/a.json'', ''empty.json'', ''z.json''] = concat (map page_names pages)
      \<and> [list_call None, list_call (Some ''page2'')]
          = map list_call (None # map lr_cursor (butlast pages))"
    using example_pages
    by (intro exI [of _ "[\<lparr>lr_keys = [\<lparr>key_name = ''docs/a.json''\<rparr>, \<lparr>key_name = ''empty.json''\<rparr>],
          lr_cursor = Some ''page2''\<rparr>, \<lparr>lr_keys = [\<lparr>key_name = ''z.json''\<rparr>], lr_cursor = None\<rparr>]"])
       (simp add: page_names_def)
  then have "listAllKeys example_store =
     Some (Inr [''docs/a.json'', ''empty.json'', ''z.json''],
           [list_call None, list_call (Some ''page2'')])"
    by (rule listAllKeys_pages [THEN conjunct1, THEN iffD2])
  moreover have "listAllKeys (paged_store example_keys) =
          Some (Inr example_keys, [list_call None, list_call (Some (replicate 1000 (CHR ''c''))),
                         list_call (Some (replicate 2000 (CHR ''c'')))])"
    by (rule listAllKeys_pages [THEN conjunct2, THEN mp, OF len])
  ultimately show ?thesis
    using len by (simp add: list_call_def)
qed

subsection \<open>Termination\<close>

lemma nth_call_state:
  "nth_call kv n = Some options \<Longrightarrow>
   \<exists>keys calls. length calls = n \<and> options = list_call (opt_cursor options)
     \<and> listAllKeys kv = listAllKeys_loop kv keys (opt_cursor options) calls"
proof (induction n arbitrary: options)
  case 0
  then show ?case
    by (auto simp: listAllKeys_def list_call_def intro!: exI [of _ "[]"])
next
  case (Suc n)
  from Suc.prems obtain o' r where
    prev: "nth_call kv n = Some o'" and res: "kv_list kv o' = Inr r"
    and tr: "cursor_truthy (lr_cursor r)" and opts: "options = list_call (lr_cursor r)"
    by (auto split: option.splits sum.splits if_splits)
  from Suc.IH [OF prev] obtain keys calls where
    len: "length calls = n" and o': "o' = list_call (opt_cursor o')"
    and run: "listAllKeys kv = listAllKeys_loop kv keys (opt_cursor o') calls"
    by blast
  from res o' have "kv_list kv (list_call (opt_cursor o')) = Inr r"
    by simp
  with tr have "listAllKeys_loop kv keys (opt_cursor o') calls
      = listAllKeys_loop kv (keys @ page_names r) (lr_cursor r) (calls @ [list_call (opt_cursor o')])"
    by (subst loop_unfold) simp
  with run len opts show ?case
    by (intro exI [of _ "keys @ page_names r"] exI [of _ "calls @ [list_call (opt_cursor o')]"])
       (simp add: list_call_def)
qed

lemma listAllKeys_returns:
  assumes "nth_call kv n = Some options" and "kv_list kv options = Inr r" and "lr_cursor r = None"
  shows "\<exists>keys calls. listAllKeys kv = Some (Inr keys, calls) \<and> length calls = Suc n"
proof -
  from nth_call_state [OF assms(1)] obtain keys calls where
    len: "length calls = n" and o: "options = list_call (opt_cursor options)"
    and run: "listAllKeys kv = listAllKeys_loop kv keys (opt_cursor options) calls"
    by blast
  from assms(2) o have "kv_list kv (list_call (opt_cursor options)) = Inr r"
    by simp
  with assms(3) have "listAllKeys_loop kv keys (opt_cursor options) calls
      = Some (Inr (keys @ page_names r), calls @ [list_call (opt_cursor options)])"
    by (subst loop_unfold) simp
  with run len show ?thesis by simp
qed

lemma listAllKeys_unbounded:
  "\<exists>kv keys calls. listAllKeys kv = Some (Inr keys, calls) \<and> N < length calls"
proof -
  obtain calls where "listAllKeys (paged_store (replicate (1000 * N + 1) ''k''))
      = Some (Inr (replicate (1000 * N + 1) ''k''), calls)"
    and "length (replicate (1000 * N + 1) ''k'') \<le> 1000 * length calls"
    using listAllKeys_paged by blast
  then show ?thesis
    by (intro exI conjI) (assumption, simp)
qed

lemma loop_never:
  assumes "listAllKeys_loop kv keys cursor calls = Some out"
  shows "kv \<noteq> looping_store"
  using assms
proof (induction rule: listAllKeys_loop.raw_induct [rotated 1, consumes 1, case_names step])
  case (step loop kv keys cursor calls out)
  show ?case
  proof
    assume kv: "kv = looping_store"
    with step(2) obtain keys' cursor' calls' where "loop kv keys' cursor' calls' = Some out"
      by (auto simp: Let_def looping_store_def)
    from step(1) [OF this] kv show False by simp
  qed
qed

text \<open>
  Claim C8. If the listing call number \<open>n\<close> of the enumeration answers without a
  cursor, \<^verbatim>\<open>listAllKeys\<close> returns, after exactly \<open>n + 1\<close> calls. The loop has no bound of
  its own: for every number \<open>N\<close> there is a store on which it returns after more than
  \<open>N\<close> calls.
\<close>

theorem listAllKeys_terminates:
  "(nth_call kv n = Some options \<and> kv_list kv options = Inr r \<and> lr_cursor r = None \<longrightarrow>
      (\<exists>keys calls. listAllKeys kv = Some (Inr keys, calls) \<and> length calls = Suc n))
   \<and> (\<forall>N. \<exists>kv' keys calls. listAllKeys kv' = Some (Inr keys, calls) \<and> N < length calls)"
  using listAllKeys_returns [of kv n options r] listAllKeys_unbounded
  by blast

theorem listAllKeys_terminates_witness:
  "nth_call example_store 1 = Some \<lparr>opt_cursor = Some ''page2'', opt_limit = 1000\<rparr>
   \<and> kv_list example_store \<lparr>opt_cursor = Some ''page2'', opt_limit = 1000\<rparr>
       = Inr \<lparr>lr_keys = [\<lparr>key_name = ''z.json''\<rparr>], lr_cursor = None\<rparr>
   \<and> (\<exists>keys calls. listAllKeys example_store = Some (Inr keys, calls) \<and> length calls = 2)"
proof -
  have c: "nth_call example_store (Suc 0) = Some \<lparr>opt_cursor = Some ''page2'', opt_limit = 1000\<rparr>"
    by (simp add: example_store_def list_call_def)
  have l: "kv_list example_store \<lparr>opt_cursor = Some ''page2'', opt_limit = 1000\<rparr>
       = Inr \<lparr>lr_keys = [\<lparr>key_name = ''z.json''\<rparr>], lr_cursor = None\<rparr>"
    by (simp add: example_store_def)
  have n: "lr_cursor \<lparr>lr_keys = [\<lparr>key_name = ''z.json''\<rparr>], lr_cursor = None\<rparr> = None"
    by simp
  have "\<exists>keys calls. listAllKeys example_store = Some (Inr keys, calls) \<and> length calls = Suc (Suc 0)"
    by (rule listAllKeys_terminates [THEN conjunct1, THEN mp, OF conjI [OF c conjI [OF l n]]])
  then have "\<exists>keys calls. listAllKeys example_store = Some (Inr keys, calls) \<and> length calls = 2"
    by (simp add: numeral_2_eq_2)
  with c l show ?thesis
    by (simp del: nth_call.simps)
qed

section \<open>The enumeration route\<close>

lemma rejecting_store_fault:
  "listAllKeys (rejecting_store err)
     = Some (Inl err, [list_call None, list_call (Some ''page2'')])"
  by (simp add: listAllKeys_def loop_unfold rejecting_store_def list_call_def)






section \<open>Cross-origin access\<close>

text \<open>
  Claim C1 says that every response of the handler carries
  \<^verbatim>\<open>Access-Control-Allow-Origin: *\<close>. The 404 and the 500 responses do not: a request
  for a key the store does not hold, and a request for \<^verbatim>\<open>/list-keys\<close> on a store whose
  listing rejects, get a response without that header.
\<close>

theorem error_responses_lack_cors:
  "(\<exists>r. fetch example_digest (get_request ''/missing'') \<lparr>APP_JSON = example_store\<rparr> = Some (Inr r)
        \<and> status r = 404 \<and> response_header r ''Access-Control-Allow-Origin'' = None)
   \<and> (\<exists>r. fetch example_digest (get_request ''/list-keys'') \<lparr>APP_JSON = failing_store\<rparr> = Some (Inr r)
        \<and> status r = 500 \<and> response_header r ''Access-Control-Allow-Origin'' = None)"
  by (simp add: fetch_def Let_def get_request_def example_store_def storage_key_def endsWith_def
      stored_text_def response_header_def failing_store_def rejecting_store_fault
      error_message_def error_object_def failure_body)

text \<open>
  The header by status, for every response of the handler: \<^verbatim>\<open>*\<close> on the statuses 200
  and 304, absent on every other one.
\<close>

theorem cors_by_status:
  assumes "fetch digest request env = Some (Inr r)"
  shows "response_header r ''Access-Control-Allow-Origin''
     = (if status r = 200 \<or> status r = 304 then Some ''*'' else None)"
  using assms
  by (auto simp: fetch_def Let_def response_header_def
      split: if_splits option.splits sum.splits prod.splits)

theorem cors_by_status_witness:
  \<open>fetch example_digest (get_request ''/docs/a'') \<lparr>APP_JSON = example_store\<rparr> =
       Some (Inr \<lparr>status = 200, body = Some ''{"a":1}'',
         headers = [(''Content-Type'', ''application/json''),
                    (''Access-Control-Allow-Origin'', ''*''),
                    (''Cache-Control'', ''public, max-age=300''),
                    (''ETag'', ''"0aff07"'')]\<rparr>)
   \<and> response_header \<lparr>status = 200, body = Some ''{"a":1}'',
         headers = [(''Content-Type'', ''application/json''),
                    (''Access-Control-Allow-Origin'', ''*''),
                    (''Cache-Control'', ''public, max-age=300''),
                    (''ETag'', ''"0aff07"'')]\<rparr> ''Access-Control-Allow-Origin'' = Some ''*''\<close>
proof -
  have f: \<open>fetch example_digest (get_request ''/docs/a'') \<lparr>APP_JSON = example_store\<rparr> =
       Some (Inr \<lparr>status = 200, body = Some ''{"a":1}'',
         headers = [(''Content-Type'', ''application/json''),
                    (''Access-Control-Allow-Origin'', ''*''),
                    (''Cache-Control'', ''public, max-age=300''),
                    (''ETag'', ''"0aff07"'')]\<rparr>)\<close>
    by (simp add: fetch_def get_request_def example_key example_store_def stored_text_def
        example_sha1 normalize_if_none_match_def dquote_def)
  show ?thesis
    using cors_by_status [OF f] f by simp
qed

text \<open>
  On a store that always answers with a cursor the enumeration never returns, and
  neither does the handler on \<^verbatim>\<open>/list-keys\<close>.
\<close>

theorem list_keys_never_returns:
  "listAllKeys looping_store = None
   \<and> fetch digest (get_request ''/list-keys'') \<lparr>APP_JSON = looping_store\<rparr> = None"
proof -
  have "listAllKeys looping_store = None"
    using loop_never [of looping_store "[]" None "[]"]
    by (cases "listAllKeys looping_store") (auto simp: listAllKeys_def)
  then show ?thesis
    by (simp add: fetch_def get_request_def)
qed

end
